theory Spec2Isabelle
  imports Complex_Main "HOL-Library.Word" "HOL-Library.Log_Nat"
begin

section \<open>JavaScript numbers\<close>

text \<open>
  A JavaScript number is an IEEE-754 double: a finite value, an infinity or NaN.
  Finite values are kept as the rational they denote. The sign of zero is not tracked:
  the divisions of the modelled code have the denominator \<open>n\<close> (assigned \<open>+0\<close> once),
  a NaN or a positive number, so a negative zero never decides a result.
\<close>

datatype jsnum = Fin rat | PInf | NInf | NaN

text \<open>The other values the modelled properties hold: \<open>undefined\<close> and \<open>null\<close>.\<close>

datatype jsval = Undefined | Null | Num jsnum

fun toNumber :: "jsval \<Rightarrow> jsnum" where
  "toNumber Undefined = NaN"
| "toNumber Null = Fin 0"
| "toNumber (Num x) = x"

subsection \<open>Rounding to the nearest double\<close>

text \<open>\<open>ilog2 x\<close> is the binary exponent of a positive rational: \<open>2^e \<le> x < 2^(e+1)\<close>.\<close>

definition ilog2 :: "rat \<Rightarrow> int" where
  "ilog2 x = (let (p, q) = quotient_of x; d = bitlen p - bitlen q
              in if x < 2 powi d then d - 1 else d)"

text \<open>Rounding a rational to the nearest integer, a tie to the even one.\<close>

definition rhe :: "rat \<Rightarrow> int" where
  "rhe y = (let f = \<lfloor>y\<rfloor>; r = y - of_int f
            in if r < 1 / 2 then f else if 1 / 2 < r then f + 1
               else if even f then f else f + 1)"

text \<open>
  The double nearest to a rational, before the overflow test: 53 significant bits, the
  unit in the last place \<open>2^(e - 52)\<close>, and the fixed unit \<open>2^(-1074)\<close> below the normal
  range.
\<close>

definition rnd :: "rat \<Rightarrow> rat" where
  "rnd x = (if x = 0 then 0
            else let e = max (ilog2 \<bar>x\<bar>) (- 1022); u = 2 powi (e - 52)
                 in of_int (rhe (x / u)) * u)"

text \<open>A rounded value of magnitude \<open>2^1024\<close> or more overflows to an infinity.\<close>

definition fl :: "rat \<Rightarrow> jsnum" where
  "fl x = (let r = rnd x
           in if r \<noteq> 0 \<and> 1024 \<le> ilog2 \<bar>r\<bar> then (if 0 < r then PInf else NInf)
              else Fin r)"

subsection \<open>Arithmetic\<close>

fun jneg :: "jsnum \<Rightarrow> jsnum" where
  "jneg (Fin a) = Fin (- a)"
| "jneg PInf = NInf"
| "jneg NInf = PInf"
| "jneg NaN = NaN"

fun jadd :: "jsnum \<Rightarrow> jsnum \<Rightarrow> jsnum" where
  "jadd NaN _ = NaN"
| "jadd _ NaN = NaN"
| "jadd PInf NInf = NaN"
| "jadd NInf PInf = NaN"
| "jadd PInf _ = PInf"
| "jadd _ PInf = PInf"
| "jadd NInf _ = NInf"
| "jadd _ NInf = NInf"
| "jadd (Fin a) (Fin b) = fl (a + b)"

definition jsub :: "jsnum \<Rightarrow> jsnum \<Rightarrow> jsnum" where
  "jsub a b = jadd a (jneg b)"

text \<open>The sign of a product or quotient with an infinite operand.\<close>

definition inf_signed :: "bool \<Rightarrow> jsnum" where
  "inf_signed positive = (if positive then PInf else NInf)"

fun jmul :: "jsnum \<Rightarrow> jsnum \<Rightarrow> jsnum" where
  "jmul NaN _ = NaN"
| "jmul _ NaN = NaN"
| "jmul (Fin a) (Fin b) = fl (a * b)"
| "jmul (Fin a) PInf = (if a = 0 then NaN else inf_signed (0 < a))"
| "jmul (Fin a) NInf = (if a = 0 then NaN else inf_signed (a < 0))"
| "jmul PInf (Fin b) = (if b = 0 then NaN else inf_signed (0 < b))"
| "jmul NInf (Fin b) = (if b = 0 then NaN else inf_signed (b < 0))"
| "jmul PInf PInf = PInf"
| "jmul NInf NInf = PInf"
| "jmul PInf NInf = NInf"
| "jmul NInf PInf = NInf"

fun jdiv :: "jsnum \<Rightarrow> jsnum \<Rightarrow> jsnum" where
  "jdiv NaN _ = NaN"
| "jdiv _ NaN = NaN"
| "jdiv (Fin a) (Fin b) =
     (if b = 0 then (if a = 0 then NaN else inf_signed (0 < a)) else fl (a / b))"
| "jdiv (Fin a) PInf = Fin 0"
| "jdiv (Fin a) NInf = Fin 0"
| "jdiv PInf (Fin b) = inf_signed (0 \<le> b)"
| "jdiv NInf (Fin b) = inf_signed (b < 0)"
| "jdiv PInf PInf = NaN"
| "jdiv PInf NInf = NaN"
| "jdiv NInf PInf = NaN"
| "jdiv NInf NInf = NaN"

text \<open>
  The remainder \<open>a % b\<close>: the sign of the dividend, the quotient truncated; it is exact.
\<close>

fun jrem :: "jsnum \<Rightarrow> jsnum \<Rightarrow> jsnum" where
  "jrem (Fin a) (Fin b) =
     (if b = 0 then NaN
      else Fin (a - b * of_int (if 0 \<le> a / b then \<lfloor>a / b\<rfloor> else \<lceil>a / b\<rceil>)))"
| "jrem (Fin a) PInf = Fin a"
| "jrem (Fin a) NInf = Fin a"
| "jrem _ _ = NaN"

fun Math_floor :: "jsnum \<Rightarrow> jsnum" where
  "Math_floor (Fin a) = Fin (of_int \<lfloor>a\<rfloor>)"
| "Math_floor x = x"

fun Math_abs :: "jsnum \<Rightarrow> jsnum" where
  "Math_abs (Fin a) = Fin \<bar>a\<bar>"
| "Math_abs PInf = PInf"
| "Math_abs NInf = PInf"
| "Math_abs NaN = NaN"

text \<open>Comparisons; every comparison with NaN is false.\<close>

fun jless :: "jsnum \<Rightarrow> jsnum \<Rightarrow> bool" where
  "jless NaN _ = False"
| "jless _ NaN = False"
| "jless (Fin a) (Fin b) = (a < b)"
| "jless (Fin a) PInf = True"
| "jless NInf (Fin b) = True"
| "jless NInf PInf = True"
| "jless _ _ = False"

text \<open>Strict equality \<open>===\<close> of two numbers: NaN equals nothing.\<close>

fun jeq :: "jsnum \<Rightarrow> jsnum \<Rightarrow> bool" where
  "jeq NaN _ = False"
| "jeq _ NaN = False"
| "jeq a b = (a = b)"

text \<open>
  Reading \<open>xs[k]\<close> with a number as the key: the element when \<open>k\<close> is an index of the
  array, \<open>undefined\<close> (\<open>None\<close>) otherwise.
\<close>

definition at_index :: "'a list \<Rightarrow> jsnum \<Rightarrow> 'a option" where
  "at_index xs k =
     (case k of
        Fin q \<Rightarrow> if 0 \<le> q \<and> q = of_int \<lfloor>q\<rfloor> \<and> nat \<lfloor>q\<rfloor> < length xs
                 then Some (xs ! nat \<lfloor>q\<rfloor>) else None
      | _ \<Rightarrow> None)"

text \<open>
  \<open>ToInt32\<close>, the conversion the bitwise operators apply: NaN and the infinities become 0,
  a finite value is truncated and wrapped to 32 bits. \<open>x << k\<close> shifts that word and reads
  it back as a signed number.
\<close>

definition toInt32 :: "jsnum \<Rightarrow> 32 word" where
  "toInt32 x = (case x of Fin a \<Rightarrow> word_of_int (if 0 \<le> a then \<lfloor>a\<rfloor> else \<lceil>a\<rceil>) | _ \<Rightarrow> 0)"

definition shiftLeft :: "jsnum \<Rightarrow> nat \<Rightarrow> jsnum" where
  "shiftLeft x k = Fin (of_int (sint (push_bit (k mod 32) (toInt32 x))))"

text \<open>
  \<open>parseInt(s, 16)\<close>: the value of the longest prefix of hexadecimal digits, NaN when
  there is none. The white space, sign and \<open>0x\<close> that \<open>parseInt\<close> also skips do not occur
  in a hexadecimal digest and are not modelled.
\<close>

definition hexDigit :: "char \<Rightarrow> int option" where
  "hexDigit c =
     (let k = (of_char c :: nat)
      in if 48 \<le> k \<and> k \<le> 57 then Some (int k - 48)
         else if 97 \<le> k \<and> k \<le> 102 then Some (int k - 87)
         else if 65 \<le> k \<and> k \<le> 70 then Some (int k - 55)
         else None)"

fun hexPrefix :: "string \<Rightarrow> int list" where
  "hexPrefix [] = []"
| "hexPrefix (c # cs) = (case hexDigit c of None \<Rightarrow> [] | Some d \<Rightarrow> d # hexPrefix cs)"

definition hexValue :: "int list \<Rightarrow> int" where
  "hexValue ds = foldl (\<lambda>a d. 16 * a + d) 0 ds"

definition parseInt16 :: "string \<Rightarrow> jsnum" where
  "parseInt16 s = (case hexPrefix s of [] \<Rightarrow> NaN | d # ds \<Rightarrow> fl (of_int (hexValue (d # ds))))"

section \<open>Lib.js\<close>

text \<open>
  \<open>growthFunc\<close>, \<open>inverseGrowth\<close> and \<open>duration\<close> call \<open>Math.pow(Math.E, x)\<close> and
  \<open>Math.log\<close>, whose double results the language leaves to the implementation. They are
  modelled over the reals with \<open>exp\<close> and \<open>ln\<close>; the rounding of the double operations
  is left out of these three functions.
\<close>

definition growthFunc :: "real \<Rightarrow> int" where
  "growthFunc ms = (let r = 6 / 100000 in \<lfloor>100 * exp (r * ms)\<rfloor>)"



text \<open>
  \<open>divisible\<close>: the digits of the hash are folded with
  \<open>((r << 4) + parseInt(d,16)) % mod\<close>, starting from 0, and the result is compared
  with 0.
\<close>

definition divisible_step :: "jsnum \<Rightarrow> jsnum \<Rightarrow> char \<Rightarrow> jsnum" where
  "divisible_step md r d = jrem (jadd (shiftLeft r 4) (parseInt16 [d])) md"

definition divisible :: "string \<Rightarrow> jsnum \<Rightarrow> bool" where
  "divisible hash md = (let val = foldl (divisible_step md) (Fin 0) hash in jeq val (Fin 0))"

definition clientSeed :: string where
  "clientSeed = ''000000000000000007a9a31ff7f07463d91af6b5454241d5faf282e5e0fe1b3a''"

text \<open>
  \<open>crashPoint\<close>. The HMAC-SHA256 of Node's \<open>crypto\<close> module is not code of this
  program: it is the parameter \<open>hmac\<close>, from a key and a message to the hexadecimal
  digest.
\<close>

definition crashPoint :: "(string \<Rightarrow> string \<Rightarrow> string) \<Rightarrow> string \<Rightarrow> jsnum" where
  "crashPoint hmac serverSeed =
     (let hash = hmac serverSeed clientSeed
      in if divisible hash (Fin 101) then Fin 0
         else let h = parseInt16 (take (52 div 4) hash);
                  e = Fin (2 ^ 52)
              in Math_floor (jdiv (jsub (jmul (Fin 100) e) h) (jsub e h)))"

text \<open>
  The words of the specification, for comparison with \<open>crashPoint\<close>. A well-formed
  digest is a string of hexadecimal digits; \<open>fold101\<close> is the fold
  \<open>acc = (acc*16 + nibble) mod 101\<close> over its digits, and \<open>spec_crashPoint\<close> the
  stated result on a digest, with the quotient and its floor taken exactly.
\<close>

definition is_hex :: "string \<Rightarrow> bool" where
  "is_hex s = list_all (\<lambda>c. hexDigit c \<noteq> None) s"

definition fold101 :: "int list \<Rightarrow> int" where
  "fold101 ds = foldl (\<lambda>acc d. (acc * 16 + d) mod 101) 0 ds"


section \<open>LinearModel.js\<close>

text \<open>
  The constructor assigns \<open>n\<close>, \<open>sxy\<close>, \<open>sx\<close>, \<open>sy\<close>, \<open>alpha\<close> and \<open>beta\<close>; it does not
  assign \<open>sx2\<close>, which therefore reads \<open>undefined\<close> until \<open>add\<close> writes it.
\<close>

record LinearModel =
  n :: jsnum
  sxy :: jsnum
  sx :: jsnum
  sy :: jsnum
  sx2 :: jsval
  alpha :: jsnum
  beta :: jsnum

definition new_LinearModel :: LinearModel where
  "new_LinearModel =
     \<lparr>n = Fin 0, sxy = Fin 0, sx = Fin 0, sy = Fin 0, sx2 = Undefined,
      alpha = Fin 0, beta = Fin 0\<rparr>"

definition add :: "LinearModel \<Rightarrow> jsnum \<Rightarrow> jsnum \<Rightarrow> LinearModel" where
  "add this x y =
     (let this1 = this\<lparr>sxy := jadd (sxy this) (jmul x y)\<rparr>;
          this2 = this1\<lparr>sx := jadd (sx this1) x\<rparr>;
          this3 = this2\<lparr>sy := jadd (sy this2) y\<rparr>;
          this4 = this3\<lparr>sx2 := Num (jadd (toNumber (sx2 this3)) (jmul x x))\<rparr>;
          this5 = this4\<lparr>beta :=
            jdiv (jsub (sxy this4) (jdiv (jmul (sx this4) (sy this4)) (n this4)))
                 (jsub (toNumber (sx2 this4)) (jdiv (jmul (sx this4) (sx this4)) (n this4)))\<rparr>
      in this5\<lparr>alpha := jdiv (jsub (sy this5) (jmul (beta this5) (sx this5))) (n this5)\<rparr>)"

definition evaluate :: "LinearModel \<Rightarrow> jsnum \<Rightarrow> jsnum" where
  "evaluate this x = jadd (alpha this) (jmul x (beta this))"

section \<open>The client\<close>

text \<open>
  The user states and round states are the strings the client assigns and compares;
  \<open>userState\<close> is \<open>null\<close> (\<open>None\<close>) until the first join.
\<close>

datatype user_state = WATCHING | PLACING | PLACED | PLAYING | CASHINGOUT | CASHEDOUT | CRASHED

datatype game_state = STARTING | IN_PROGRESS | ENDED

text \<open>
  A stored tick. \<open>elapsed\<close> is the server's count of milliseconds, an integer, and
  \<open>growth\<close> the value of \<open>growthFunc\<close> there.
\<close>

record tickInfo =
  elapsed :: int
  growth :: int
  micro :: jsval

record playerInfo =
  bet :: "int option"
  stopped_at :: "int option"
  bonus :: "int option"

text \<open>
  The round object. \<open>crashpoint\<close> is the property the object literals create (always
  \<open>null\<close>); \<open>game_crashPoint\<close> is the property \<open>crashPoint\<close> that \<open>onGameCrash\<close> adds,
  \<open>undefined\<close> before. A player map stands for the \<open>players\<close> object; user names are
  taken not to be names of \<open>Object.prototype\<close>.
\<close>

record Game =
  id_game :: int
  serverSeedHash :: "string option"
  players :: "string \<rightharpoonup> playerInfo"
  state :: game_state
  startTime :: jsnum
  microStartTime :: jsval
  ticks :: "tickInfo list"
  crashpoint :: jsval
  serverSeed :: "string option"
  forced :: "bool option"
  game_crashPoint :: jsval

record Client =
  userState :: "user_state option"
  lastServerSeed :: "string option"
  username :: "string option"
  balance :: jsval
  game :: "Game option"
  tickModel :: "LinearModel option"

text \<open>
  The client object has no property \<open>state\<close>: neither the constructor nor a handler
  assigns one, so \<open>this.state\<close> reads \<open>undefined\<close>.
\<close>

definition this_state :: "Client \<Rightarrow> string option" where
  "this_state this = None"

text \<open>The payload of \<open>game_crash\<close>, and the snapshot \<open>getGameInfo\<close> returns.\<close>

record crashData =
  d_forced :: bool
  d_elapsed :: int
  d_game_crash :: jsnum
  d_bonuses :: "(string \<times> int) list"
  d_hash :: string

record gameInfo =
  info_elapsed :: jsnum
  game_id :: int
  server_seed_hash :: "string option"
  player_info :: "string \<rightharpoonup> playerInfo"
  info_state :: game_state
  info_ticks :: "tickInfo list"
  started :: jsnum
  micro_time :: jsval
  game_crash :: jsval
  server_seed :: "string option"
  verified :: "string option"

datatype event =
    Emit_game_started "(string \<times> int) list"
  | Emit_user_loss crashData
  | Emit_game_crash crashData gameInfo

text \<open>
  A handler that dereferences a \<open>null\<close> round or model, or a missing player, throws;
  the thrown error comes with the client as the handler left it.
\<close>

datatype error = TypeError

subsection \<open>game_started\<close>



subsection \<open>The queries\<close>

definition getLastTick :: "Client \<Rightarrow> error + tickInfo" where
  "getLastTick this =
     (case game this of
        None \<Rightarrow> Inl TypeError
      | Some g \<Rightarrow>
          if length (ticks g) > 0 then Inr (last (ticks g))
          else Inr \<lparr>elapsed = 0, growth = 100, micro = Num (Fin 0)\<rparr>)"

text \<open>
  \<open>elapsedToMicro\<close> calls \<open>evaluate\<close> and has no \<open>return\<close> statement: the value of the
  call is dropped and the method returns \<open>undefined\<close>. The argument is NaN (\<open>None\<close>) when
  a bound of the interval is \<open>undefined\<close>.
\<close>

definition elapsedToMicro :: "Client \<Rightarrow> int option \<Rightarrow> error + jsval" where
  "elapsedToMicro this x =
     (case tickModel this of
        None \<Rightarrow> Inl TypeError
      | Some m \<Rightarrow>
          let dropped = evaluate m (case x of None \<Rightarrow> NaN | Some k \<Rightarrow> Fin (of_int k))
          in Inr Undefined)"

text \<open>
  The bounds of the interval between ticks; a bound read past the end of \<open>diffs\<close> is
  \<open>undefined\<close> (\<open>None\<close>). The literals \<open>0.05\<close> and \<open>0.95\<close> are the doubles nearest to
  them.
\<close>

record tickDiff =
  lower :: "int option"
  upper :: "int option"

definition estimateTickTimeDiff :: "Client \<Rightarrow> error + tickDiff" where
  "estimateTickTimeDiff this =
     (case game this of
        None \<Rightarrow> Inl TypeError
      | Some g \<Rightarrow>
          let ts = ticks g
          in if length ts < 2 then Inr \<lparr>lower = Some 0, upper = Some 0\<rparr>
             else if length ts < 3 then
               (let t = elapsed (ts ! 1) - elapsed (ts ! 0)
                in Inr \<lparr>lower = Some t, upper = Some t\<rparr>)
             else if length ts < 4 then
               (let t1 = elapsed (ts ! 1) - elapsed (ts ! 0);
                    t2 = elapsed (ts ! 2) - elapsed (ts ! 1)
                in Inr \<lparr>lower = Some (min t1 t2), upper = Some (max t1 t2)\<rparr>)
             else
               (let diffs = map (\<lambda>i. elapsed (ts ! i) - elapsed (ts ! (i - 1))) [1..<length ts];
                    sorted_diffs = sort diffs
                in Inr \<lparr>lower = at_index sorted_diffs
                            (Math_floor (jmul (fl (5 / 100)) (Fin (of_nat (length sorted_diffs))))),
                         upper = at_index sorted_diffs
                            (Math_floor (jmul (fl (95 / 100)) (Fin (of_nat (length sorted_diffs)))))\<rparr>))"

text \<open>
  The words of the specification for the bounds, for comparison with
  \<open>estimateTickTimeDiff\<close>: \<open>cnt\<close> is the number of deltas, and the two indices are the
  exact floors of \<open>0.05 * cnt\<close> and \<open>0.95 * cnt\<close>.
\<close>

definition spec_tickTimeDiff :: "tickInfo list \<Rightarrow> tickDiff" where
  "spec_tickTimeDiff ts =
     (let deltas = map (\<lambda>i. elapsed (ts ! i) - elapsed (ts ! (i - 1))) [1..<length ts];
          cnt = length deltas
      in if length ts \<le> 1 then \<lparr>lower = Some 0, upper = Some 0\<rparr>
         else if length ts = 2 then \<lparr>lower = Some (deltas ! 0), upper = Some (deltas ! 0)\<rparr>
         else if length ts = 3 then
           \<lparr>lower = Some (min (deltas ! 0) (deltas ! 1)),
            upper = Some (max (deltas ! 0) (deltas ! 1))\<rparr>
         else \<lparr>lower = Some (sort deltas ! nat \<lfloor>5 / 100 * (of_nat cnt :: rat)\<rfloor>),
               upper = Some (sort deltas ! nat \<lfloor>95 / 100 * (of_nat cnt :: rat)\<rfloor>)\<rparr>)"

text \<open>
  The two estimated ticks. An \<open>undefined\<close> bound makes the elapsed time and the growth
  NaN (\<open>None\<close>); on the integers of the stored ticks \<open>Math.floor\<close> changes nothing.
\<close>

record tickEstimate =
  est_elapsed :: "int option"
  est_growth :: "int option"
  est_micro :: jsval

record nextTick =
  lower_tickInfo :: tickEstimate
  upper_tickInfo :: tickEstimate

definition estimateNextTick :: "Client \<Rightarrow> error + nextTick" where
  "estimateNextTick this =
     (case getLastTick this of
        Inl e \<Rightarrow> Inl e
      | Inr lst \<Rightarrow>
     (case estimateTickTimeDiff this of
        Inl e \<Rightarrow> Inl e
      | Inr tickdiff \<Rightarrow>
     (let lower_elapsed = map_option (\<lambda>d. \<lfloor>(of_int (elapsed lst + d) :: rat)\<rfloor>) (lower tickdiff)
      in case elapsedToMicro this lower_elapsed of
        Inl e \<Rightarrow> Inl e
      | Inr lower_micro \<Rightarrow>
     (let upper_elapsed = map_option (\<lambda>d. \<lfloor>(of_int (elapsed lst + d) :: rat)\<rfloor>) (upper tickdiff)
      in case elapsedToMicro this upper_elapsed of
        Inl e \<Rightarrow> Inl e
      | Inr upper_micro \<Rightarrow>
          Inr \<lparr>lower_tickInfo =
                 \<lparr>est_elapsed = lower_elapsed,
                  est_growth = map_option (\<lambda>k. growthFunc (of_int k)) lower_elapsed,
                  est_micro = lower_micro\<rparr>,
               upper_tickInfo =
                 \<lparr>est_elapsed = upper_elapsed,
                  est_growth = map_option (\<lambda>k. growthFunc (of_int k)) upper_elapsed,
                  est_micro = upper_micro\<rparr>\<rparr>))))"

text \<open>
  The verdict of \<open>getGameInfo\<close>:
  \<open>diff === 0 || cp > 1e6 && diff < 0.08 ? "ok" : "scam"\<close> with
  \<open>diff = Math.abs(cp - this.game.crashPoint)\<close>.
\<close>

definition verdict :: "jsnum \<Rightarrow> jsval \<Rightarrow> string" where
  "verdict cp reported =
     (let diff = Math_abs (jsub cp (toNumber reported))
      in if jeq diff (Fin 0) \<or> (jless (Fin 1000000) cp \<and> jless diff (fl (8 / 100)))
         then ''ok'' else ''scam'')"

text \<open>
  \<open>getGameInfo\<close>; \<open>now\<close> is the value of \<open>Date.now()\<close>. \<open>createHmac\<close> throws on a key
  that is \<open>null\<close>.
\<close>

definition getGameInfo ::
  "(string \<Rightarrow> string \<Rightarrow> string) \<Rightarrow> jsnum \<Rightarrow> Client \<Rightarrow> error + gameInfo" where
  "getGameInfo hmac now this =
     (case game this of
        None \<Rightarrow> Inl TypeError
      | Some g \<Rightarrow>
          let info =
                \<lparr>info_elapsed = jsub now (startTime g), game_id = id_game g,
                 server_seed_hash = serverSeedHash g, player_info = players g,
                 info_state = state g, info_ticks = ticks g, started = startTime g,
                 micro_time = microStartTime g, game_crash = Undefined,
                 server_seed = None, verified = None\<rparr>
          in if state g = ENDED then
               (case serverSeed g of
                  None \<Rightarrow> Inl TypeError
                | Some seed \<Rightarrow>
                    let cp = crashPoint hmac seed
                    in Inr (info\<lparr>game_crash := game_crashPoint g, server_seed := Some seed,
                                 verified := Some (verdict cp (game_crashPoint g))\<rparr>))
             else Inr info)"

subsection \<open>game_crash\<close>

text \<open>
  The loop over the bonuses: a bonus for a name that is not among the players throws
  (the assertion fails and the assignment dereferences \<open>undefined\<close>), after the bonuses
  before it were stored.
\<close>

fun applyBonuses ::
  "(string \<times> int) list \<Rightarrow> (string \<rightharpoonup> playerInfo)
   \<Rightarrow> (string \<rightharpoonup> playerInfo) + (string \<rightharpoonup> playerInfo)" where
  "applyBonuses [] ps = Inr ps"
| "applyBonuses ((playerName, amount) # bonuses) ps =
     (case ps playerName of
        None \<Rightarrow> Inl ps
      | Some p \<Rightarrow> applyBonuses bonuses (ps(playerName \<mapsto> p\<lparr>bonus := Some amount\<rparr>)))"

definition onGameCrash ::
  "(string \<Rightarrow> string \<Rightarrow> string) \<Rightarrow> jsnum \<Rightarrow> Client \<Rightarrow> crashData
   \<Rightarrow> (error \<times> Client) + (Client \<times> event list)" where
  "onGameCrash hmac now this d =
     (case game this of
        None \<Rightarrow> Inl (TypeError, this)
      | Some g \<Rightarrow>
          let g1 = g\<lparr>serverSeed := Some (d_hash d), game_crashPoint := Num (d_game_crash d),
                     forced := Some (d_forced d), state := ENDED\<rparr>;
              this1 = this\<lparr>lastServerSeed := Some (d_hash d), game := Some g1\<rparr>
          in case applyBonuses (d_bonuses d) (players g1) of
               Inl ps \<Rightarrow> Inl (TypeError, this1\<lparr>game := Some (g1\<lparr>players := ps\<rparr>)\<rparr>)
             | Inr ps \<Rightarrow>
                 let this2 = this1\<lparr>game := Some (g1\<lparr>players := ps\<rparr>)\<rparr>;
                     lost = (userState this2 = Some PLAYING \<or>
                             this_state this2 = Some ''CASHINGOUT'');
                     this3 = (if lost then this2\<lparr>userState := Some CRASHED\<rparr> else this2)
                 in case getGameInfo hmac now this3 of
                      Inl e \<Rightarrow> Inl (e, this3)
                    | Inr info \<Rightarrow>
                        Inr (this3, (if lost then [Emit_user_loss d] else []) @
                                    [Emit_game_crash d info]))"

section \<open>Concrete states\<close>

text \<open>
  A round in progress with two ticks, and a joined client in a given user state whose
  tick model was seeded by \<open>onGameStarted\<close>.
\<close>

definition ex_game :: Game where
  "ex_game =
     \<lparr>id_game = 7, serverSeedHash = None, players = Map.empty, state = IN_PROGRESS,
      startTime = Fin 0, microStartTime = Num (Fin 0),
      ticks = [\<lparr>elapsed = 0, growth = 100, micro = Num (Fin 0)\<rparr>,
               \<lparr>elapsed = 250, growth = 101, micro = Num (Fin 251000)\<rparr>],
      crashpoint = Null, serverSeed = None, forced = None, game_crashPoint = Undefined\<rparr>"

definition ex_client :: "user_state \<Rightarrow> Game \<Rightarrow> Client" where
  "ex_client u g =
     \<lparr>userState = Some u, lastServerSeed = None, username = Some ''Shiba'',
      balance = Num (Fin 1000), game = Some g,
      tickModel = Some (add new_LinearModel (Fin 0) (Fin 0))\<rparr>"

text \<open>
  The values of HMAC-SHA256 for three server seeds, with the client seed as the message
  (the first two seeds are those of the examples in the client's comments); and a
  digest whose first 13 digits have the value \<open>2^52 - 3\<close>, at every key.
\<close>

definition ex_hmac :: "string \<Rightarrow> string \<Rightarrow> string" where
  "ex_hmac k m =
     (if m \<noteq> clientSeed then []
      else if k = ''c7a6e51b81d78bc3f01996cf76cd64aea3cb5b7fcdea65d28f3d16c3f7622081''
        then ''b828f3792cf749c7a8b0d88f796f336f29cced8e5501728bce65e85eaa199bcf''
      else if k = ''20c8a18be0fb4d4529b661938350bfbea3ed822c4dc83e764a079efa14ec9af9''
        then ''ee4e5d837d51595b2d80eafc040d4079e281dba67a29d199e4819ce203bc3fc6''
      else if k = ''af1e1eb19b43f549bbacd014b8c8d84a986a51cacfb6e21b081bb1412b6d7c16''
        then ''fff9e83ac4fc76eb4417b1b52a93def1b91350731399fcd55e4bf8f61bb4d5a6''
      else [])"


text \<open>A \<open>game_crash\<close> payload without bonuses.\<close>

definition ex_crash :: crashData where
  "ex_crash =
     \<lparr>d_forced = False, d_elapsed = 500, d_game_crash = Fin 1433, d_bonuses = [],
      d_hash = ''20c8a18be0fb4d4529b661938350bfbea3ed822c4dc83e764a079efa14ec9af9''\<rparr>"

text \<open>
  The round of \<open>ex_game\<close> after it ended with the third server seed, whose crash point
  is 1064865, and with a given reported crash multiplier.
\<close>

definition ex_ended :: "jsnum \<Rightarrow> Game" where
  "ex_ended reported =
     ex_game\<lparr>state := ENDED,
             serverSeed := Some ''af1e1eb19b43f549bbacd014b8c8d84a986a51cacfb6e21b081bb1412b6d7c16'',
             forced := Some False, game_crashPoint := Num reported\<rparr>"

text \<open>
  A round with six ticks whose successive deltas are 250, 250, 260, 240 and 255.
\<close>

definition ex_game6 :: Game where
  "ex_game6 = ex_game\<lparr>ticks :=
     [\<lparr>elapsed = 0, growth = 100, micro = Num (Fin 0)\<rparr>,
      \<lparr>elapsed = 250, growth = 101, micro = Num (Fin 251000)\<rparr>,
      \<lparr>elapsed = 500, growth = 103, micro = Num (Fin 502000)\<rparr>,
      \<lparr>elapsed = 760, growth = 104, micro = Num (Fin 761000)\<rparr>,
      \<lparr>elapsed = 1000, growth = 106, micro = Num (Fin 1003000)\<rparr>,
      \<lparr>elapsed = 1255, growth = 107, micro = Num (Fin 1256000)\<rparr>]\<rparr>"

section \<open>NaN in the arithmetic\<close>

lemma jadd_NaN_right: "jadd x NaN = NaN"
  by (cases x) simp_all

lemma jmul_NaN_right: "jmul x NaN = NaN"
  by (cases x) simp_all

lemma jdiv_NaN_right: "jdiv x NaN = NaN"
  by (cases x) simp_all

lemma jsub_NaN_left: "jsub NaN x = NaN"
  by (simp add: jsub_def)

lemma jsub_NaN_right: "jsub x NaN = NaN"
  by (simp add: jsub_def jadd_NaN_right)

section \<open>Rounding to the nearest double\<close>

text \<open>Powers of two, and the binary exponent.\<close>

lemma pow2_less_iff: "(2::rat) powi a < 2 powi b \<longleftrightarrow> a < b"
proof
  assume "(2::rat) powi a < 2 powi b"
  show "a < b"
  proof (rule ccontr)
    assume "\<not> a < b"
    then have "(2::rat) powi b \<le> 2 powi a" by (intro power_int_increasing) auto
    with \<open>(2::rat) powi a < 2 powi b\<close> show False by simp
  qed
next
  assume "a < b"
  then show "(2::rat) powi a < 2 powi b" by (intro power_int_strict_increasing) auto
qed

lemma pow2_le_iff: "(2::rat) powi a \<le> 2 powi b \<longleftrightarrow> a \<le> b"
  using pow2_less_iff [of b a] by (auto simp: not_less [symmetric])

lemma pow2_add1: "(2::rat) powi (a + 1) = 2 * 2 powi a"
  by (simp add: power_int_add)

lemma pow2_pos: "(0::rat) < 2 powi a"
  by simp

lemma bitlen_powi_bounds:
  assumes "0 < p"
  shows "(2::rat) powi (bitlen p - 1) \<le> of_int p" and "of_int p < (2::rat) powi bitlen p"
proof -
  from bitlen_bounds [OF assms]
  have a: "2 ^ nat (bitlen p - 1) \<le> p" and b: "p < 2 ^ nat (bitlen p)" by auto
  have ge1: "1 \<le> bitlen p"
    using assms bitlen_eq_zero_iff [of p] bitlen_nonneg [of p] by linarith
  have "(2::rat) powi (bitlen p - 1) = of_int (2 ^ nat (bitlen p - 1))"
    using ge1 by (simp add: power_int_nonneg_exp)
  also have "\<dots> \<le> of_int p" using a by (simp only: of_int_le_iff)
  finally show "(2::rat) powi (bitlen p - 1) \<le> of_int p" .
  have "(of_int p :: rat) < of_int (2 ^ nat (bitlen p))" using b by (simp only: of_int_less_iff)
  also have "\<dots> = 2 powi bitlen p"
    using ge1 by (simp add: power_int_nonneg_exp)
  finally show "of_int p < (2::rat) powi bitlen p" .
qed

lemma ilog2_bounds:
  assumes "0 < x"
  shows "2 powi ilog2 x \<le> x" and "x < 2 powi (ilog2 x + 1)"
proof -
  obtain p q where pq: "quotient_of x = (p, q)" by (cases "quotient_of x")
  have q: "0 < q" using pq by (rule quotient_of_denom_pos)
  have x: "x = of_int p / of_int q" using pq by (rule quotient_of_div)
  have p: "0 < p" using assms q x by (simp add: zero_less_divide_iff)
  define d where "d = bitlen p - bitlen q"
  note pb = bitlen_powi_bounds [OF p] and qb = bitlen_powi_bounds [OF q]
  have qpos: "(0::rat) < of_int q" using q by simp
  have lo: "2 powi (d - 1) \<le> x"
  proof -
    have "(2::rat) powi (d - 1) = 2 powi (bitlen p - 1) / 2 powi bitlen q"
      by (simp add: d_def power_int_diff power_int_add algebra_simps)
    also have "\<dots> \<le> of_int p / 2 powi bitlen q"
      using pb(1) by (simp add: divide_right_mono)
    also have "\<dots> \<le> of_int p / of_int q"
      using qb(2) qpos p by (intro divide_left_mono) (auto intro: mult_pos_pos)
    finally show ?thesis by (simp add: x)
  qed
  have hi: "x < 2 powi (d + 1)"
  proof -
    have "x = of_int p / of_int q" by (rule x)
    also have "\<dots> < 2 powi bitlen p / of_int q"
      using pb(2) qpos by (simp add: divide_strict_right_mono)
    also have "\<dots> \<le> 2 powi bitlen p / 2 powi (bitlen q - 1)"
      using qb(1) qpos by (intro divide_left_mono) (auto intro: mult_pos_pos)
    also have "\<dots> = 2 powi (d + 1)"
      by (simp add: d_def power_int_diff power_int_add algebra_simps)
    finally show ?thesis .
  qed
  have il: "ilog2 x = (if x < 2 powi d then d - 1 else d)"
    by (simp add: ilog2_def pq d_def Let_def)
  show "2 powi ilog2 x \<le> x" using lo by (simp add: il)
  show "x < 2 powi (ilog2 x + 1)" using hi by (simp add: il)
qed

lemma ilog2_unique:
  assumes "2 powi e \<le> x" and "x < 2 powi (e + 1)"
  shows "ilog2 x = e"
proof -
  have pos: "0 < x" using assms(1) by (rule less_le_trans [rotated]) simp
  note b = ilog2_bounds [OF pos]
  have "(2::rat) powi e < 2 powi (ilog2 x + 1)" using assms(1) b(2) by linarith
  then have 1: "e < ilog2 x + 1" by (simp only: pow2_less_iff)
  have "(2::rat) powi ilog2 x < 2 powi (e + 1)" using assms(2) b(1) by linarith
  then have 2: "ilog2 x < e + 1" by (simp only: pow2_less_iff)
  from 1 2 show ?thesis by linarith
qed

text \<open>Rounding to the nearest integer.\<close>

lemma rhe_of_int: "rhe (of_int k) = k"
  by (simp add: rhe_def)

lemma rhe_near:
  assumes "\<bar>y - of_int k\<bar> < 1 / 2"
  shows "rhe y = k"
proof (cases "of_int k \<le> y")
  case True
  then have f: "\<lfloor>y\<rfloor> = k" using assms by (intro floor_unique) auto
  show ?thesis using assms True by (simp add: rhe_def f Let_def)
next
  case False
  then have f: "\<lfloor>y\<rfloor> = k - 1" using assms by (intro floor_unique) auto
  show ?thesis using assms False by (simp add: rhe_def f Let_def)
qed

lemma rhe_floor_bounds: "\<lfloor>y\<rfloor> \<le> rhe y" "rhe y \<le> \<lfloor>y\<rfloor> + 1"
  by (simp_all add: rhe_def Let_def)

lemma rhe_mono:
  assumes "x \<le> y"
  shows "rhe x \<le> rhe y"
proof (cases "\<lfloor>x\<rfloor> = \<lfloor>y\<rfloor>")
  case True
  then show ?thesis using assms by (auto simp: rhe_def Let_def)
next
  case False
  then have "\<lfloor>x\<rfloor> + 1 \<le> \<lfloor>y\<rfloor>" using floor_mono [OF assms] by linarith
  then show ?thesis using rhe_floor_bounds(2) [of x] rhe_floor_bounds(1) [of y] by linarith
qed

lemma rhe_minus: "rhe (- y) = - rhe y"
proof (cases "y = of_int \<lfloor>y\<rfloor>")
  case True
  then have "rhe y = \<lfloor>y\<rfloor>" using rhe_of_int by metis
  moreover have "rhe (- y) = - \<lfloor>y\<rfloor>" using True rhe_of_int [of "- \<lfloor>y\<rfloor>"] by simp
  ultimately show ?thesis by simp
next
  case False
  then have lt: "of_int \<lfloor>y\<rfloor> < y" using of_int_floor_le [of y] by linarith
  have f: "\<lfloor>- y\<rfloor> = - \<lfloor>y\<rfloor> - 1"
    using lt floor_correct [of y] by (intro floor_unique) auto
  show ?thesis using lt by (auto simp: rhe_def Let_def f)
qed

text \<open>
  The rounded value inside a binade; doubles are fixed points; rounding is monotone.
\<close>

lemma rnd_eqI:
  assumes "2 powi e \<le> x" and "x < 2 powi (e + 1)" and "- 1022 \<le> e"
  shows "rnd x = of_int (rhe (x / 2 powi (e - 52))) * 2 powi (e - 52)"
proof -
  have pos: "0 < x" using assms(1) by (rule less_le_trans [rotated]) simp
  then have ax: "\<bar>x\<bar> = x" by simp
  have il: "ilog2 x = e" using assms(1,2) by (rule ilog2_unique)
  show ?thesis using pos assms(3) by (simp add: rnd_def ax il Let_def max_def)
qed

lemma rnd_minus: "rnd (- x) = - rnd x"
  by (simp add: rnd_def Let_def rhe_minus)

lemma rnd_dyadic:
  assumes "0 < m" and "m < 2 ^ 53" and "0 \<le> s" and "s \<le> 1022"
  shows "rnd (of_int m * 2 powi (- s)) = of_int m * 2 powi (- s)"
proof -
  define x :: rat where "x = of_int m * 2 powi (- s)"
  have pos: "0 < x" using assms(1) by (simp add: x_def)
  define e where "e = ilog2 x"
  note b = ilog2_bounds [OF pos, folded e_def]
  have xs: "x * 2 powi s = of_int m"
    by (simp add: x_def power_int_minus field_simps)
  have "(2::rat) powi (e + s) = 2 powi e * 2 powi s" by (simp add: power_int_add)
  also have "\<dots> \<le> x * 2 powi s" using b(1) by (intro mult_right_mono) auto
  also have "\<dots> = of_int m" by (rule xs)
  also have "\<dots> < of_int (2 ^ 53)" using assms(2) by (simp only: of_int_less_iff)
  also have "\<dots> = (2::rat) powi 53" by simp
  finally have "e + s < 53" by (simp only: pow2_less_iff)
  then have es: "0 \<le> 52 - e - s" by simp
  have "(2::rat) powi (- s) \<le> x"
    using assms(1) by (simp add: x_def) 
  then have "(2::rat) powi (- s) < 2 powi (e + 1)" using b(2) by linarith
  then have "- s < e + 1" by (simp only: pow2_less_iff)
  then have en: "- 1022 \<le> e" using assms(4) by linarith
  have "x / 2 powi (e - 52) = of_int m * (2 powi (- s) / 2 powi (e - 52))"
    by (simp add: x_def)
  also have "2 powi (- s) / 2 powi (e - 52) = (2::rat) powi (52 - e - s)"
    by (simp add: power_int_diff [symmetric] algebra_simps)
  also have "\<dots> = of_int (2 ^ nat (52 - e - s))"
    using es by (simp add: power_int_nonneg_exp)
  finally have q: "x / 2 powi (e - 52) = of_int (m * 2 ^ nat (52 - e - s))" by simp
  have "rnd x = of_int (rhe (x / 2 powi (e - 52))) * 2 powi (e - 52)"
    using b en by (intro rnd_eqI)
  also have "\<dots> = of_int (m * 2 ^ nat (52 - e - s)) * 2 powi (e - 52)"
    by (simp only: q rhe_of_int)
  also have "\<dots> = x / 2 powi (e - 52) * 2 powi (e - 52)" by (simp only: q)
  also have "\<dots> = x" by simp
  finally show ?thesis by (simp add: x_def)
qed

lemma rnd_int:
  assumes "\<bar>m\<bar> < 2 ^ 53"
  shows "rnd (of_int m) = of_int m"
proof -
  have p: "rnd (of_int k) = of_int k" if "0 < k" "k < 2 ^ 53" for k
    using rnd_dyadic [of k 0] that by simp
  consider "m = 0" | "0 < m" | "m < 0" by linarith
  then show ?thesis
  proof cases
    case 1
    then show ?thesis by (simp add: rnd_def)
  next
    case 2
    then show ?thesis using assms by (intro p) auto
  next
    case 3
    then have "rnd (of_int (- m)) = of_int (- m)" using assms by (intro p) auto
    then show ?thesis by (simp add: rnd_minus)
  qed
qed

lemma rnd_binade:
  assumes "2 powi e \<le> x" and "x < 2 powi (e + 1)" and "- 1022 \<le> e"
  shows "2 powi e \<le> rnd x" and "rnd x \<le> 2 powi (e + 1)"
proof -
  let ?u = "(2::rat) powi (e - 52)"
  have u: "0 < ?u" by simp
  have r: "rnd x = of_int (rhe (x / ?u)) * ?u" using assms by (rule rnd_eqI)
  have "(2::rat) powi e / ?u = 2 powi 52" by (simp add: power_int_diff [symmetric])
  then have lo: "of_int (2 ^ 52) \<le> x / ?u"
    using assms(1) u divide_right_mono [of "2 powi e" x ?u] by simp
  have "(2::rat) powi (e + 1) / ?u = 2 powi 53" by (simp add: power_int_diff [symmetric])
  then have hi: "x / ?u \<le> of_int (2 ^ 53)"
    using assms(2) u divide_right_mono [of x "2 powi (e + 1)" ?u] by simp
  have "2 ^ 52 \<le> rhe (x / ?u)" using rhe_mono [OF lo] by (simp only: rhe_of_int)
  then have "(of_int (2 ^ 52) :: rat) \<le> of_int (rhe (x / ?u))" by (simp only: of_int_le_iff)
  then have "of_int (2 ^ 52) * ?u \<le> rnd x" unfolding r using u by (intro mult_right_mono) auto
  moreover have "of_int (2 ^ 52) * ?u = 2 powi e"
    using power_int_add [of "2::rat" 52 "e - 52"] by simp
  ultimately show "2 powi e \<le> rnd x" by simp
  have "rhe (x / ?u) \<le> 2 ^ 53" using rhe_mono [OF hi] by (simp only: rhe_of_int)
  then have "(of_int (rhe (x / ?u)) :: rat) \<le> of_int (2 ^ 53)" by (simp only: of_int_le_iff)
  then have "rnd x \<le> of_int (2 ^ 53) * ?u" unfolding r using u by (intro mult_right_mono) auto
  moreover have "of_int (2 ^ 53) * ?u = 2 powi (e + 1)"
    using power_int_add [of "2::rat" 53 "e - 52"] by (simp add: add.commute)
  ultimately show "rnd x \<le> 2 powi (e + 1)" by simp
qed

lemma rnd_mono:
  assumes "0 < x" and "x \<le> y" and "- 1022 \<le> ilog2 x"
  shows "rnd x \<le> rnd y"
proof -
  have ypos: "0 < y" using assms by simp
  note bx = ilog2_bounds [OF assms(1)] and bnd = ilog2_bounds [OF ypos]
  have "(2::rat) powi ilog2 x < 2 powi (ilog2 y + 1)" using bx(1) bnd(2) assms(2) by linarith
  then have le: "ilog2 x \<le> ilog2 y" by (simp add: pow2_less_iff)
  show ?thesis
  proof (cases "ilog2 x = ilog2 y")
    case True
    let ?u = "(2::rat) powi (ilog2 x - 52)"
    have "rhe (x / ?u) \<le> rhe (y / ?u)"
      using assms(2) by (intro rhe_mono divide_right_mono) auto
    then have "(of_int (rhe (x / ?u)) :: rat) * ?u \<le> of_int (rhe (y / ?u)) * ?u"
      by (intro mult_right_mono) auto
    moreover have "rnd x = of_int (rhe (x / ?u)) * ?u" using bx assms(3) by (intro rnd_eqI)
    moreover have "rnd y = of_int (rhe (y / ?u)) * ?u"
      using bnd assms(3) True by (intro rnd_eqI) auto
    ultimately show ?thesis by simp
  next
    case False
    then have lt: "ilog2 x + 1 \<le> ilog2 y" using le by simp
    have "rnd x \<le> 2 powi (ilog2 x + 1)" using bx assms(3) by (intro rnd_binade(2))
    also have "\<dots> \<le> 2 powi ilog2 y" using lt by (simp only: pow2_le_iff)
    also have "\<dots> \<le> rnd y" using bnd assms(3) le by (intro rnd_binade(1)) auto
    finally show ?thesis .
  qed
qed

lemma fl_Fin:
  assumes "\<bar>rnd x\<bar> < 2 powi 1024"
  shows "fl x = Fin (rnd x)"
proof (cases "rnd x = 0")
  case True
  then show ?thesis by (simp add: fl_def)
next
  case False
  then have "0 < \<bar>rnd x\<bar>" by simp
  from ilog2_bounds(1) [OF this] assms have "(2::rat) powi ilog2 \<bar>rnd x\<bar> < 2 powi 1024"
    by linarith
  then have "ilog2 \<bar>rnd x\<bar> < 1024" by (simp only: pow2_less_iff)
  then show ?thesis by (simp add: fl_def Let_def)
qed

lemma fl_int:
  assumes "\<bar>m\<bar> < 2 ^ 53"
  shows "fl (of_int m) = Fin (of_int m)"
proof -
  have "\<bar>(of_int m :: rat)\<bar> < of_int (2 ^ 53)"
    using assms by (simp only: of_int_abs [symmetric] of_int_less_iff)
  also have "\<dots> \<le> 2 powi 1024" by simp
  finally show ?thesis using rnd_int [OF assms] by (intro fl_Fin [THEN trans]) simp_all
qed

section \<open>The crash point\<close>

lemma hexDigit_range:
  assumes "hexDigit c = Some d"
  shows "0 \<le> d" and "d < 16"
  using assms by (auto simp: hexDigit_def Let_def split: if_splits)

lemma shiftLeft_4_small:
  assumes "0 \<le> r" and "r < 2 ^ 27"
  shows "shiftLeft (Fin (of_int r)) 4 = Fin (of_int (r * 16))"
proof -
  have "push_bit 4 (word_of_int r :: 32 word) = word_of_int (r * 16)"
    by (simp add: push_bit_eq_mult)
  then have "sint (push_bit 4 (word_of_int r :: 32 word)) = signed_take_bit 31 (r * 16)"
    by (simp only: sint_sbintrunc') simp
  also have "\<dots> = r * 16"
    using assms by (intro signed_take_bit_int_eq_self) auto
  finally show ?thesis using assms(1) by (simp add: shiftLeft_def toInt32_def)
qed

lemma jrem_int:
  assumes "0 \<le> a" and "0 < b"
  shows "jrem (Fin (of_int a)) (Fin (of_int b)) = Fin (of_int (a mod b))"
proof -
  have "(0::rat) \<le> of_int a / of_int b" using assms by simp
  moreover have "(of_int a :: rat) - of_int b * of_int (a div b) = of_int (a mod b)"
    by (simp add: minus_mult_div_eq_mod flip: of_int_mult of_int_diff)
  ultimately show ?thesis using assms by (simp add: floor_divide_of_int_eq)
qed

lemma parseInt16_digit:
  assumes "hexDigit c = Some d"
  shows "parseInt16 [c] = Fin (of_int d)"
proof -
  have "\<bar>d\<bar> < 2 ^ 53" using hexDigit_range [OF assms] by simp
  then show ?thesis using assms by (simp add: parseInt16_def hexValue_def fl_int)
qed

lemma divisible_step_101:
  assumes "0 \<le> r" and "r < 101" and "hexDigit c = Some d"
  shows "divisible_step (Fin 101) (Fin (of_int r)) c = Fin (of_int ((r * 16 + d) mod 101))"
proof -
  note d = hexDigit_range [OF assms(3)]
  have s: "shiftLeft (Fin (of_int r)) 4 = Fin (of_int (r * 16))"
    using assms(1,2) by (intro shiftLeft_4_small) auto
  have "\<bar>r * 16 + d\<bar> < 2 ^ 53" using assms(1,2) d by simp
  then have "fl (of_int (r * 16 + d)) = Fin (of_int (r * 16 + d))" by (rule fl_int)
  then have a: "jadd (Fin (of_int (r * 16))) (Fin (of_int d)) = Fin (of_int (r * 16 + d))"
    by simp
  have m: "jrem (Fin (of_int (r * 16 + d))) (Fin (of_int 101)) =
      Fin (of_int ((r * 16 + d) mod 101))"
    using assms(1) d by (intro jrem_int) auto
  have "divisible_step (Fin 101) (Fin (of_int r)) c =
      jrem (jadd (Fin (of_int (r * 16))) (Fin (of_int d))) (Fin (of_int 101))"
    by (simp only: divisible_step_def s parseInt16_digit [OF assms(3)]) simp
  then show ?thesis by (simp only: a m)
qed

lemma foldl_divisible_step:
  assumes "is_hex s" and "0 \<le> r" and "r < 101"
  shows "foldl (divisible_step (Fin 101)) (Fin (of_int r)) s =
         Fin (of_int (foldl (\<lambda>acc d. (acc * 16 + d) mod 101) r (hexPrefix s)))"
  using assms
proof (induction s arbitrary: r)
  case Nil
  then show ?case by simp
next
  case (Cons c cs)
  from Cons.prems(1) obtain d where d: "hexDigit c = Some d" and cs: "is_hex cs"
    by (auto simp: is_hex_def)
  have step: "divisible_step (Fin 101) (Fin (of_int r)) c = Fin (of_int ((r * 16 + d) mod 101))"
    using Cons.prems(2,3) d by (rule divisible_step_101)
  have "foldl (divisible_step (Fin 101)) (Fin (of_int ((r * 16 + d) mod 101))) cs =
        Fin (of_int (foldl (\<lambda>acc d. (acc * 16 + d) mod 101) ((r * 16 + d) mod 101) (hexPrefix cs)))"
    using cs by (intro Cons.IH) auto
  then show ?case by (simp add: step d)
qed

lemma divisible_101:
  assumes "is_hex s"
  shows "divisible s (Fin 101) = (fold101 (hexPrefix s) = 0)"
  using foldl_divisible_step [OF assms, of 0]
  by (simp add: divisible_def fold101_def)

lemma hexPrefix_range:
  assumes "d \<in> set (hexPrefix s)"
  shows "0 \<le> d \<and> d < 16"
  using assms
proof (induction s)
  case Nil
  then show ?case by simp
next
  case (Cons c cs)
  then show ?case
    by (cases "hexDigit c") (auto dest: hexDigit_range)
qed

lemma hexPrefix_length:
  assumes "is_hex s"
  shows "length (hexPrefix s) = length s"
  using assms by (induction s) (auto simp: is_hex_def)

lemma is_hex_take: "is_hex s \<Longrightarrow> is_hex (take k s)"
  by (auto simp: is_hex_def list_all_iff dest: in_set_takeD)

lemma foldl_hex_bounds:
  fixes a :: int
  assumes "0 \<le> a" and "\<forall>d\<in>set ds. 0 \<le> d \<and> d < 16"
  shows "0 \<le> foldl (\<lambda>a d. 16 * a + d) a ds \<and>
         foldl (\<lambda>a d. 16 * a + d) a ds < (a + 1) * 16 ^ length ds"
  using assms
proof (induction ds arbitrary: a)
  case Nil
  then show ?case by auto
next
  case (Cons d ds)
  then have d: "0 \<le> d" "d < 16" by auto
  let ?F = "foldl (\<lambda>a d. 16 * a + d) (16 * a + d) ds"
  have ih: "0 \<le> ?F \<and> ?F < (16 * a + d + 1) * 16 ^ length ds"
    using Cons.prems d by (intro Cons.IH) auto
  have le: "(16 * a + d + 1) * 16 ^ length ds \<le> (a + 1) * 16 ^ length (d # ds)"
  proof -
    have "(16 * a + d + 1) * 16 ^ length ds \<le> (16 * a + 16) * 16 ^ length ds"
      using d by (intro mult_right_mono) auto
    then show ?thesis by (simp add: algebra_simps)
  qed
  from ih le have "0 \<le> ?F \<and> ?F < (a + 1) * 16 ^ length (d # ds)" by linarith
  then show ?case by simp
qed

lemma hexValue_bounds:
  "0 \<le> hexValue (hexPrefix s) \<and> hexValue (hexPrefix s) < 16 ^ length (hexPrefix s)"
  using foldl_hex_bounds [of 0 "hexPrefix s"] hexPrefix_range [of _ s]
  by (simp add: hexValue_def)

lemma parseInt16_prefix:
  assumes "is_hex s" and "13 \<le> length s"
  shows "parseInt16 (take 13 s) = Fin (of_int (hexValue (hexPrefix (take 13 s))))"
    and "0 \<le> hexValue (hexPrefix (take 13 s))"
    and "hexValue (hexPrefix (take 13 s)) < 2 ^ 52"
proof -
  let ?t = "take 13 s"
  have len: "length (hexPrefix ?t) = 13"
    using assms hexPrefix_length [OF is_hex_take [OF assms(1)], of 13] by simp
  from hexValue_bounds [of ?t] show lo: "0 \<le> hexValue (hexPrefix ?t)" by simp
  from hexValue_bounds [of ?t] show hi: "hexValue (hexPrefix ?t) < 2 ^ 52"
    by (simp add: len)
  from len obtain d ds where c: "hexPrefix ?t = d # ds" by (cases "hexPrefix ?t") auto
  have "\<bar>hexValue (hexPrefix ?t)\<bar> < 2 ^ 53" using lo hi by simp
  then have "fl (of_int (hexValue (hexPrefix ?t))) = Fin (of_int (hexValue (hexPrefix ?t)))"
    by (rule fl_int)
  then show "parseInt16 ?t = Fin (of_int (hexValue (hexPrefix ?t)))"
    by (simp add: parseInt16_def c)
qed

lemma fl_100e: "fl (100 * 2 ^ 52) = Fin (100 * 2 ^ 52)"
  by code_simp

text \<open>
  The quotient of \<open>crashPoint\<close> in double arithmetic, for the value \<open>h\<close> of the first
  13 digits.
\<close>

lemma crash_quotient:
  assumes "0 \<le> h" and "h < 2 ^ 52"
  shows "Math_floor (jdiv (jsub (jmul (Fin 100) (Fin (2 ^ 52))) (Fin (of_int h)))
                         (jsub (Fin (2 ^ 52)) (Fin (of_int h)))) =
         Fin (of_int \<lfloor>rnd (rnd (100 * 2 ^ 52 - of_int h) / (2 ^ 52 - of_int h))\<rfloor>)"
proof -
  define N :: rat where "N = 100 * 2 ^ 52 - of_int h"
  define D :: rat where "D = 2 ^ 52 - of_int h"
  have "(of_int h :: rat) < of_int (2 ^ 52)" using assms(2) by (simp only: of_int_less_iff)
  then have hr: "(0::rat) \<le> of_int h" "(of_int h :: rat) < 2 ^ 52"
    using assms(1) by simp_all
  have Nb: "2 powi 58 \<le> N" "N < 2 powi (58 + 1)" using hr by (simp_all add: N_def)
  have Db: "1 \<le> D" "D \<le> 2 ^ 52"
  proof -
    have "h + 1 \<le> 2 ^ 52" using assms(2) by simp
    then have "(of_int (h + 1) :: rat) \<le> of_int (2 ^ 52)" by (simp only: of_int_le_iff)
    then show "1 \<le> D" by (simp add: D_def)
    show "D \<le> 2 ^ 52" using hr by (simp add: D_def)
  qed
  note rN = rnd_binade [OF Nb, simplified]
  have flN: "fl N = Fin (rnd N)"
  proof (rule fl_Fin)
    have "\<bar>rnd N\<bar> = rnd N" using rN(1) by simp
    also have "\<dots> \<le> 2 ^ 59" using rN(2) by simp
    also have "\<dots> < 2 powi 1024" by simp
    finally show "\<bar>rnd N\<bar> < 2 powi 1024" .
  qed
  have flD: "fl D = Fin D"
  proof -
    have "\<bar>2 ^ 52 - h\<bar> < 2 ^ 53" using assms by simp
    from fl_int [OF this] show ?thesis by (simp add: D_def)
  qed
  define q where "q = rnd N / D"
  have qlo: "2 powi 6 \<le> q"
  proof -
    have "(2::rat) powi 6 = 2 ^ 58 / 2 ^ 52" by simp
    also have "\<dots> \<le> rnd N / 2 ^ 52" using rN(1) by (intro divide_right_mono) auto
    also have "\<dots> \<le> rnd N / D" using Db rN(1) by (intro divide_left_mono) auto
    finally show ?thesis by (simp add: q_def)
  qed
  have qhi: "q \<le> 2 powi 59"
  proof -
    have "q \<le> rnd N / 1" unfolding q_def using Db rN(1) by (intro divide_left_mono) auto
    then show ?thesis using rN(2) by simp
  qed
  have qpos: "0 < q" using qlo by (rule less_le_trans [rotated]) simp
  note bq = ilog2_bounds [OF qpos]
  have "(2::rat) powi 6 < 2 powi (ilog2 q + 1)" using qlo bq(2) by linarith
  then have "6 < ilog2 q + 1" by (simp only: pow2_less_iff)
  then have e1: "6 \<le> ilog2 q" by simp
  have "(2::rat) powi ilog2 q \<le> 2 powi 59" using qhi bq(1) by linarith
  then have e2: "ilog2 q \<le> 59" by (simp only: pow2_le_iff)
  have en: "- 1022 \<le> ilog2 q" using e1 by simp
  note rq = rnd_binade [OF bq en]
  have flq: "fl q = Fin (rnd q)"
  proof (rule fl_Fin)
    have "0 < rnd q" using rq(1) by (rule less_le_trans [rotated]) simp
    then have "\<bar>rnd q\<bar> = rnd q" by simp
    also have "\<dots> \<le> 2 powi (ilog2 q + 1)" by (rule rq(2))
    also have "\<dots> < 2 powi 1024" using e2 by (simp only: pow2_less_iff)
    finally show "\<bar>rnd q\<bar> < 2 powi 1024" .
  qed
  have Dne: "D \<noteq> 0" using Db by simp
  have "jmul (Fin 100) (Fin (2 ^ 52)) = Fin (100 * 2 ^ 52)"
    using fl_100e by simp
  moreover have "jsub (Fin (100 * 2 ^ 52)) (Fin (of_int h)) = Fin (rnd N)"
    using flN by (simp add: jsub_def N_def)
  moreover have "jsub (Fin (2 ^ 52)) (Fin (of_int h)) = Fin D"
    using flD by (simp add: jsub_def D_def)
  moreover have "jdiv (Fin (rnd N)) (Fin D) = Fin (rnd q)"
    using flq Dne by (simp add: q_def)
  ultimately show ?thesis by (simp add: q_def N_def D_def)
qed

lemma crashPoint_of_digest:
  assumes "is_hex (hmac seed clientSeed)" and "length (hmac seed clientSeed) = 64"
  shows "crashPoint hmac seed =
    (let hash = hmac seed clientSeed;
         h = hexValue (hexPrefix (take 13 hash))
     in if fold101 (hexPrefix hash) = 0 then Fin 0
        else Fin (of_int \<lfloor>rnd (rnd (100 * 2 ^ 52 - of_int h) / (2 ^ 52 - of_int h))\<rfloor>))"
proof -
  let ?hash = "hmac seed clientSeed"
  have len: "13 \<le> length ?hash" using assms(2) by simp
  note p = parseInt16_prefix [OF assms(1) len]
  have t: "52 div 4 = (13::nat)" by simp
  show ?thesis
  proof (cases "fold101 (hexPrefix ?hash) = 0")
    case True
    then show ?thesis
      unfolding crashPoint_def Let_def divisible_101 [OF assms(1)] by simp
  next
    case False
    then show ?thesis
      unfolding crashPoint_def Let_def divisible_101 [OF assms(1)]
      by (simp only: if_False t p(1) crash_quotient [OF p(2,3)])
  qed
qed


lemma quotient_af1e:
  "\<lfloor>rnd (rnd (100 * 2 ^ 52 - of_int 4503180929683399) /
      (2 ^ 52 - of_int 4503180929683399))\<rfloor> = 1064865"
  by code_simp

lemma crashPoint_af1e:
  "crashPoint ex_hmac ''af1e1eb19b43f549bbacd014b8c8d84a986a51cacfb6e21b081bb1412b6d7c16'' =
     Fin 1064865"
proof -
  let ?d = "''fff9e83ac4fc76eb4417b1b52a93def1b91350731399fcd55e4bf8f61bb4d5a6''"
  have d: "ex_hmac ''af1e1eb19b43f549bbacd014b8c8d84a986a51cacfb6e21b081bb1412b6d7c16''
      clientSeed = ?d"
    by (simp add: ex_hmac_def)
  have hx: "is_hex ?d" "length ?d = 64" by (simp_all add: is_hex_def hexDigit_def)
  have f: "fold101 (hexPrefix ?d) = 54" by (simp add: hexDigit_def fold101_def)
  have h: "hexValue (hexPrefix (take 13 ?d)) = 4503180929683399"
    by (simp add: hexDigit_def hexValue_def)
  show ?thesis
    using crashPoint_of_digest [of ex_hmac
        "''af1e1eb19b43f549bbacd014b8c8d84a986a51cacfb6e21b081bb1412b6d7c16''"] hx
    unfolding d Let_def f h quotient_af1e by simp
qed










section \<open>The tick-timing model\<close>

text \<open>
  Once \<open>sx2\<close> is \<open>undefined\<close> or NaN, every \<open>add\<close> leaves it NaN and makes both
  coefficients NaN: the sum \<open>this.sx2 += x * x\<close> starts from \<open>undefined\<close>.
\<close>

lemma add_poisons:
  assumes "toNumber (sx2 m) = NaN"
  shows "sx2 (add m x y) = Num NaN" and "alpha (add m x y) = NaN"
    and "beta (add m x y) = NaN"
  using assms
  by (simp_all add: add_def Let_def jdiv_NaN_right jsub_NaN_left jsub_NaN_right
      jmul_NaN_right jadd_NaN_right)

lemma fold_add_poisoned:
  "toNumber (sx2 m) = NaN \<Longrightarrow>
   toNumber (sx2 (foldl (\<lambda>m (x, y). add m x y) m samples)) = NaN"
  by (induction samples arbitrary: m) (auto simp: add_poisons)

lemma evaluate_NaN: "alpha m = NaN \<Longrightarrow> evaluate m z = NaN"
  by (simp add: evaluate_def)

text \<open>
  C4. The claim: with fewer than two distinct samples \<open>evaluate\<close> refuses and returns an
  explicit "insufficient data" error or sentinel instead of propagating NaN. The code has
  no such guard: after any non-empty sequence of \<open>add\<close> calls on a fresh model (a single
  sample, or samples with one \<open>x\<close>, among them) \<open>evaluate\<close> returns NaN for every
  argument, and on a fresh model without a sample it returns 0 for every finite argument.
\<close>

theorem evaluate_after_samples_NaN:
  assumes "samples \<noteq> []"
  shows "evaluate (foldl (\<lambda>m (x, y). add m x y) new_LinearModel samples) z = NaN \<and>
         evaluate new_LinearModel (Fin w) = Fin 0"
proof -
  obtain ss x y where s: "samples = ss @ [(x, y)]"
    using assms by (metis rev_exhaust surj_pair)
  have "toNumber (sx2 (foldl (\<lambda>m (x, y). add m x y) new_LinearModel ss)) = NaN"
    by (rule fold_add_poisoned) (simp add: new_LinearModel_def)
  then have "alpha (foldl (\<lambda>m (x, y). add m x y) new_LinearModel samples) = NaN"
    by (simp add: s add_poisons)
  then have "evaluate (foldl (\<lambda>m (x, y). add m x y) new_LinearModel samples) z = NaN"
    by (rule evaluate_NaN)
  moreover have "evaluate new_LinearModel (Fin w) = Fin 0"
    by (simp add: evaluate_def new_LinearModel_def fl_def rnd_def)
  ultimately show ?thesis by simp
qed

theorem evaluate_after_samples_NaN_witness:
  "evaluate (add new_LinearModel (Fin 0) (Fin 0)) (Fin 2500) = NaN \<and>
   evaluate new_LinearModel (Fin 2500) = Fin 0"
  using evaluate_after_samples_NaN [of "[(Fin 0, Fin 0)]" "Fin 2500" 2500] by simp

text \<open>
  C5. The claim: after \<open>add(0,0)\<close> and \<open>add(5000,5100)\<close> on a fresh model,
  \<open>evaluate(2500)\<close> is about 2550, a finite number. The code returns NaN.
\<close>

theorem evaluate_two_points_NaN:
  "evaluate (add (add new_LinearModel (Fin 0) (Fin 0)) (Fin 5000) (Fin 5100)) (Fin 2500)
     = NaN"
  by (simp add: evaluate_NaN add_poisons new_LinearModel_def)

section \<open>The session\<close>

text \<open>
  C10. \<open>getLastTick\<close> returns the last tick of the round's list when the list is not
  empty, so the tick appended most recently, and the tick
  \<open>{elapsed: 0, growth: 100, micro: 0}\<close> when it is empty.
\<close>

theorem getLastTick_last_or_sentinel:
  assumes "game this = Some g"
  shows "(ticks g \<noteq> [] \<longrightarrow> getLastTick this = Inr (last (ticks g))) \<and>
         (ticks g = [] \<longrightarrow>
            getLastTick this = Inr \<lparr>elapsed = 0, growth = 100, micro = Num (Fin 0)\<rparr>) \<and>
         (\<forall>ts t. ticks g = ts @ [t] \<longrightarrow> getLastTick this = Inr t)"
  using assms by (auto simp: getLastTick_def)

theorem getLastTick_last_or_sentinel_witness:
  "getLastTick (ex_client WATCHING ex_game) =
     Inr \<lparr>elapsed = 250, growth = 101, micro = Num (Fin 251000)\<rparr> \<and>
   getLastTick (ex_client WATCHING (ex_game\<lparr>ticks := []\<rparr>)) =
     Inr \<lparr>elapsed = 0, growth = 100, micro = Num (Fin 0)\<rparr>"
  using getLastTick_last_or_sentinel [of "ex_client WATCHING ex_game" ex_game]
    getLastTick_last_or_sentinel
      [of "ex_client WATCHING (ex_game\<lparr>ticks := []\<rparr>)" "ex_game\<lparr>ticks := []\<rparr>"]
  by (simp add: ex_client_def ex_game_def)



text \<open>
  C3. The claim: a user state PLAYING or CASHINGOUT becomes CRASHED when \<open>game_crash\<close>
  is processed, and the balance is unchanged. The handler tests
  \<open>this.userState === 'PLAYING' || this.state === 'CASHINGOUT'\<close>, and \<open>this.state\<close> is
  \<open>undefined\<close>: when the bonuses name players of the round the handler returns, PLAYING
  becomes CRASHED, every other user state, CASHINGOUT among them, is left as it was, and
  the balance is unchanged.
\<close>

theorem onGameCrash_userState:
  assumes "game this = Some g" and "applyBonuses (d_bonuses d) (players g) = Inr ps"
  shows "\<exists>this' evs. onGameCrash hmac now this d = Inr (this', evs) \<and>
           userState this' =
             (if userState this = Some PLAYING then Some CRASHED else userState this) \<and>
           balance this' = balance this"
  using assms by (simp add: onGameCrash_def Let_def getGameInfo_def this_state_def)

theorem onGameCrash_userState_witness:
  "\<exists>this' evs. onGameCrash ex_hmac (Fin 9) (ex_client CASHINGOUT ex_game) ex_crash =
       Inr (this', evs) \<and>
     userState this' = Some CASHINGOUT \<and> balance this' = Num (Fin 1000)"
  using onGameCrash_userState
      [of "ex_client CASHINGOUT ex_game" ex_game ex_crash Map.empty ex_hmac "Fin 9"]
  by (simp add: ex_client_def ex_game_def ex_crash_def)

section \<open>The verification verdict\<close>

lemma fl_008: "fl (8 / 100) = Fin (5764607523034235 / 72057594037927936)"
  by code_simp

lemma ilog2_1: "ilog2 1 = 0"
  by (rule ilog2_unique) simp_all

lemma rnd_int_magnitude:
  assumes "k \<noteq> 0"
  shows "1 \<le> \<bar>rnd (of_int k)\<bar>"
proof -
  have p: "1 \<le> rnd (of_int j)" if "0 < j" for j :: int
  proof -
    have "rnd 1 \<le> rnd (of_int j)" using that by (intro rnd_mono) (simp_all add: ilog2_1)
    moreover have "rnd 1 = 1" using rnd_int [of 1] by simp
    ultimately show ?thesis by simp
  qed
  show ?thesis
  proof (cases "0 < k")
    case True
    then show ?thesis using p [of k] by simp
  next
    case False
    then have "0 < - k" using assms by simp
    from p [OF this] show ?thesis by (simp add: rnd_minus)
  qed
qed

lemma fl_int_cases:
  assumes "k \<noteq> 0"
  shows "(\<exists>v. fl (of_int k) = Fin v \<and> 1 \<le> \<bar>v\<bar>) \<or> fl (of_int k) = PInf \<or> fl (of_int k) = NInf"
  using rnd_int_magnitude [OF assms] by (auto simp: fl_def Let_def)

lemma verdict_integers:
  "verdict (Fin (of_int cp)) (Num (Fin (of_int r))) = (if cp = r then ''ok'' else ''scam'')"
proof (cases "cp = r")
  case True
  then show ?thesis by (simp add: verdict_def jsub_def fl_def rnd_def)
next
  case False
  then have "cp - r \<noteq> 0" by simp
  from fl_int_cases [OF this]
  have "\<not> jeq (Math_abs (fl (of_int (cp - r)))) (Fin 0) \<and>
        \<not> jless (Math_abs (fl (of_int (cp - r))))
             (Fin (5764607523034235 / 72057594037927936))"
    by auto
  then have "\<not> jeq (Math_abs (fl (of_int (cp - r)))) (Fin 0) \<and>
        \<not> jless (Math_abs (fl (of_int (cp - r)))) (fl (8 / 100))"
    unfolding fl_008 .
  moreover have "jsub (Fin (of_int cp)) (toNumber (Num (Fin (of_int r)))) = fl (of_int (cp - r))"
    by (simp add: jsub_def)
  ultimately show ?thesis using False by (simp add: verdict_def Let_def)
qed


lemma crashPoint_integer:
  assumes "is_hex (hmac seed clientSeed)" and "length (hmac seed clientSeed) = 64"
  shows "\<exists>cp. crashPoint hmac seed = Fin (of_int cp)"
proof (cases "fold101 (hexPrefix (hmac seed clientSeed)) = 0")
  case True
  then have "crashPoint hmac seed = Fin (of_int 0)"
    using crashPoint_of_digest [of hmac seed] assms by (simp add: Let_def)
  then show ?thesis by blast
next
  case False
  then show ?thesis
    using crashPoint_of_digest [of hmac seed] assms by (simp add: Let_def)
qed

text \<open>
  C2. The claim: the verdict is "ok" when the computed crash point and the reported one
  are equal; any difference is "scam" when the computed one is at most 1,000,000; above
  1,000,000 the verdict is "ok" exactly when the difference is below 8 (in units of
  0.01). The code compares the difference, in units of 0.01, with 0.08: for every
  digest of 64 hexadecimal digits and every reported whole number of such units the
  verdict is "ok" exactly when the computed crash point equals the reported one,
  whatever its size.
\<close>

theorem getGameInfo_verdict_integers:
  assumes "game this = Some g" and "state g = ENDED" and "serverSeed g = Some seed"
    and "is_hex (hmac seed clientSeed)" and "length (hmac seed clientSeed) = 64"
    and "game_crashPoint g = Num (Fin (of_int r))"
  shows "\<exists>info. getGameInfo hmac now this = Inr info \<and>
           verified info =
             Some (if crashPoint hmac seed = Fin (of_int r) then ''ok'' else ''scam'')"
proof -
  obtain cp where cp: "crashPoint hmac seed = Fin (of_int cp)"
    using crashPoint_integer [of hmac seed] assms(4,5) by blast
  show ?thesis
    using assms(1,2,3,6) verdict_integers [of cp r]
    by (simp add: getGameInfo_def Let_def cp)
qed

theorem getGameInfo_verdict_integers_witness:
  "\<exists>info. getGameInfo ex_hmac (Fin 9) (ex_client WATCHING (ex_ended (Fin 1064866))) =
       Inr info \<and> verified info = Some ''scam''"
proof -
  let ?s = "''af1e1eb19b43f549bbacd014b8c8d84a986a51cacfb6e21b081bb1412b6d7c16''"
  let ?d = "''fff9e83ac4fc76eb4417b1b52a93def1b91350731399fcd55e4bf8f61bb4d5a6''"
  have d: "ex_hmac ?s clientSeed = ?d" by (simp add: ex_hmac_def)
  have hx: "is_hex ?d" "length ?d = 64" by (simp_all add: is_hex_def hexDigit_def)
  show ?thesis
    using getGameInfo_verdict_integers [of "ex_client WATCHING (ex_ended (Fin 1064866))"
        "ex_ended (Fin 1064866)" ?s ex_hmac 1064866 "Fin 9"] hx
    unfolding d by (simp add: ex_client_def ex_ended_def ex_game_def crashPoint_af1e)
qed

section \<open>The interval between ticks\<close>

text \<open>Rounding between two doubles, and onto a whole number nearby.\<close>

lemma ilog2_ge:
  assumes "2 powi e \<le> x"
  shows "e \<le> ilog2 x"
proof -
  have pos: "0 < x" using assms by (rule less_le_trans [rotated]) simp
  from ilog2_bounds(2) [OF pos] assms have "(2::rat) powi e < 2 powi (ilog2 x + 1)" by linarith
  then have "e < ilog2 x + 1" by (simp only: pow2_less_iff)
  then show ?thesis by simp
qed

lemma rnd_pos:
  assumes "2 powi e \<le> x" and "- 1022 \<le> e"
  shows "0 < rnd x"
proof -
  have pos: "0 < x" using assms(1) by (rule less_le_trans [rotated]) simp
  have "- 1022 \<le> ilog2 x" using ilog2_ge [OF assms(1)] assms(2) by simp
  from rnd_binade(1) [OF ilog2_bounds [OF pos] this] show ?thesis
    by (rule less_le_trans [rotated]) simp
qed

lemma rnd_mono_normal:
  assumes "2 powi e \<le> x" and "- 1022 \<le> e" and "x \<le> y"
  shows "rnd x \<le> rnd y"
proof -
  have pos: "0 < x" using assms(1) by (rule less_le_trans [rotated]) simp
  have "- 1022 \<le> ilog2 x" using ilog2_ge [OF assms(1)] assms(2) by simp
  with pos assms(3) show ?thesis by (intro rnd_mono)
qed

text \<open>A value between a whole number and that number plus 31/32 rounds into the same range.\<close>

lemma floor_rnd_between:
  assumes "0 \<le> t" and "t < 2 ^ 40" and "of_int t \<le> x" and "x \<le> of_int t + 31 / 32"
    and "2 powi (- 5) \<le> x"
  shows "\<lfloor>rnd x\<rfloor> = t" and "fl x = Fin (rnd x)"
proof -
  have lo: "of_int t \<le> rnd x"
  proof (cases "t = 0")
    case True
    then show ?thesis using rnd_pos [OF assms(5)] by simp
  next
    case False
    then have "(2::rat) powi 0 \<le> of_int t" using assms(1) by simp
    then have "rnd (of_int t) \<le> rnd x" using assms(3) by (intro rnd_mono_normal [of 0]) auto
    moreover have "rnd (of_int t) = of_int t" using assms(1,2) by (intro rnd_int) auto
    ultimately show ?thesis by simp
  qed
  have le: "rnd x \<le> rnd (of_int t + 31 / 32)"
    using assms(4,5) by (intro rnd_mono_normal [of "- 5"]) auto
  have f: "rnd (of_int (32 * t + 31) * 2 powi (- 5)) = of_int (32 * t + 31) * 2 powi (- 5)"
    using assms(1,2) by (intro rnd_dyadic) auto
  have d: "of_int (32 * t + 31) * 2 powi (- 5) = (of_int t + 31 / 32 :: rat)"
    by (simp add: power_int_minus field_simps)
  have fixed: "rnd (of_int t + 31 / 32) = of_int t + 31 / 32" using f unfolding d .
  have hi: "rnd x \<le> of_int t + 31 / 32" using le unfolding fixed .
  show "\<lfloor>rnd x\<rfloor> = t" using lo hi by (intro floor_unique) auto
  have "\<bar>rnd x\<bar> \<le> of_int t + 1" using lo hi assms(1) by simp
  also have "\<dots> \<le> of_int (2 ^ 40)" using assms(2) by (simp flip: of_int_add del: of_int_power of_int_numeral)
  also have "\<dots> < (2::rat) powi 1024" by simp
  finally show "fl x = Fin (rnd x)" by (rule fl_Fin)
qed

lemma fl_005: "fl (5 / 100) = Fin (3602879701896397 / 72057594037927936)"
  by code_simp

lemma fl_095: "fl (95 / 100) = Fin (4278419646001971 / 4503599627370496)"
  by code_simp

lemma idx05:
  fixes k :: nat
  assumes "0 < k" and "k < 2 ^ 32"
  shows "Math_floor (jmul (fl (5 / 100)) (Fin (of_nat k))) = Fin (of_int (int k div 20))"
proof -
  define t where "t = int k div 20"
  define j where "j = int k mod 20"
  have k: "int k = 20 * t + j" by (simp add: t_def j_def)
  have j: "0 \<le> j" "j \<le> 19" by (simp_all add: j_def) 
  have t: "0 \<le> t" "t < 2 ^ 28" using assms by (simp_all add: t_def) 
  have k1: "1 \<le> 20 * t + j" using assms(1) k by linarith
  define x :: rat where "x = 3602879701896397 / 72057594037927936 * of_int (20 * t + j)"
  have "t \<le> 2 ^ 28" using t(2) by simp
  then have "(of_int t :: rat) \<le> of_int (2 ^ 28)" by (simp only: of_int_le_iff)
  moreover have "(of_int j :: rat) \<le> of_int 19" using j(2) by (simp only: of_int_le_iff)
  moreover have "(of_int 1 :: rat) \<le> of_int (20 * t + j)" using k1 by (simp only: of_int_le_iff)
  ultimately have tr: "(0::rat) \<le> of_int t" "(of_int t :: rat) \<le> 2 ^ 28"
    "(0::rat) \<le> of_int j" "(of_int j :: rat) \<le> 19" "(1::rat) \<le> 20 * of_int t + of_int j"
    using t(1) j(1) by simp_all
  have b: "of_int t \<le> x" "x \<le> of_int t + 31 / 32" "2 powi (- 5) \<le> x"
    using tr by (simp_all add: x_def power_int_minus)
  have "t < 2 ^ 40" using t by simp
  note r = floor_rnd_between [OF t(1) this b]
  have "jmul (fl (5 / 100)) (Fin (of_nat k)) = fl x"
    unfolding fl_005 by (simp add: x_def k [symmetric])
  then show ?thesis by (simp add: r t_def)
qed

lemma rnd_near_int:
  assumes "2 powi e \<le> x" and "x \<le> of_int M" and "of_int M < (2::rat) powi (e + 1)"
    and "e \<le> 52" and "- 1022 \<le> e" and "(of_int M - x) * 2 powi (52 - e) < 1 / 2"
  shows "rnd x = of_int M"
proof -
  have hi: "x < 2 powi (e + 1)" using assms(2,3) by linarith
  have r: "rnd x = of_int (rhe (x / 2 powi (e - 52))) * 2 powi (e - 52)"
    using assms(1) hi assms(5) by (rule rnd_eqI)
  have inv: "x / 2 powi (e - 52) = x * 2 powi (52 - e)" for x :: rat
    using power_int_minus [of "2::rat" "e - 52"] by (simp add: field_simps)
  have Mi: "(of_int M :: rat) * 2 powi (52 - e) = of_int (M * 2 ^ nat (52 - e))"
    using assms(4) by (simp add: power_int_nonneg_exp)
  have "\<bar>x * 2 powi (52 - e) - of_int (M * 2 ^ nat (52 - e))\<bar> =
        \<bar>- ((of_int M - x) * 2 powi (52 - e))\<bar>"
    unfolding Mi [symmetric] by (simp add: algebra_simps)
  also have "\<dots> = (of_int M - x) * 2 powi (52 - e)"
    using assms(2) by (simp add: abs_mult)
  also have "\<dots> < 1 / 2" by (rule assms(6))
  finally have "rhe (x * 2 powi (52 - e)) = M * 2 ^ nat (52 - e)" by (rule rhe_near)
  then have "rnd x = of_int (M * 2 ^ nat (52 - e)) * 2 powi (e - 52)"
    by (simp only: r inv)
  also have "\<dots> = of_int M * (2 powi (52 - e) * 2 powi (e - 52))"
    by (simp only: Mi [symmetric] mult.assoc)
  also have "2 powi (52 - e) * 2 powi (e - 52) = (1::rat)"
    by (simp flip: power_int_add)
  finally show ?thesis by simp
qed

lemma multiple_of_19_not_pow2:
  assumes "(19::int) dvd t"
  shows "t \<noteq> 2 ^ k"
proof
  assume "t = 2 ^ k"
  then have "(19::int) dvd 2 ^ k" using assms by simp
  moreover have "coprime (19::int) (2 ^ k)" by (simp add: coprime_power_right_iff)
  ultimately have "is_unit (19::int)" by (meson coprime_common_divisor dvd_refl)
  then show False by simp
qed

lemma idx95:
  fixes k :: nat
  assumes "0 < k" and "k < 2 ^ 32"
  shows "Math_floor (jmul (fl (95 / 100)) (Fin (of_nat k))) = Fin (of_int (19 * int k div 20))"
proof -
  define t where "t = 19 * int k div 20"
  define j where "j = 19 * int k mod 20"
  have k: "19 * int k = 20 * t + j" by (simp add: t_def j_def)
  have j: "0 \<le> j" "j \<le> 19" by (simp_all add: j_def)
  have t: "0 \<le> t" "t < 2 ^ 32" using assms by (simp_all add: t_def)
  define x :: rat where "x = 4278419646001971 / 4503599627370496 * of_nat k"
  have kr: "19 * (of_nat k :: rat) = 20 * of_int t + of_int j"
  proof -
    have "(of_int (19 * int k) :: rat) = of_int (20 * t + j)" by (simp only: k)
    then show ?thesis by simp
  qed
  have "t \<le> 2 ^ 32" using t(2) by simp
  then have "(of_int t :: rat) \<le> of_int (2 ^ 32)" by (simp only: of_int_le_iff)
  moreover have "(of_int j :: rat) \<le> of_int 19" using j(2) by (simp only: of_int_le_iff)
  moreover have "(1 :: rat) \<le> of_nat k" using assms(1) by simp
  ultimately have tr: "(0::rat) \<le> of_int t" "(of_int t :: rat) \<le> 2 ^ 32"
    "(0::rat) \<le> of_int j" "(of_int j :: rat) \<le> 19" "(1::rat) \<le> of_nat k"
    using t(1) j(1) by simp_all
  have res: "\<lfloor>rnd x\<rfloor> = t \<and> fl x = Fin (rnd x)"
  proof (cases "j = 0")
    case False
    then have "1 \<le> j" using j(1) by simp
    then have "(of_int 1 :: rat) \<le> of_int j" by (simp only: of_int_le_iff)
    then have j1: "(1::rat) \<le> of_int j" by simp
    have b: "of_int t \<le> x" "x \<le> of_int t + 31 / 32" "2 powi (- 5) \<le> x"
      using tr j1 kr by (simp_all add: x_def power_int_minus)
    have "t < 2 ^ 40" using t by simp
    from floor_rnd_between [OF t(1) this b] show ?thesis by simp
  next
    case True
    then have k0: "19 * int k = 20 * t" using k by simp
    then have "(19::int) dvd 20 * t" by (metis dvd_triv_left)
    moreover have "coprime (19::int) 20" using coprime_add_one_right [of "19::int"] by simp
    ultimately have d19: "(19::int) dvd t" by (simp add: coprime_dvd_mult_right_iff)
    have tpos: "1 \<le> t" using k0 assms(1) by linarith
    then have trpos: "(0::rat) < of_int t" by simp
    define e where "e = ilog2 (of_int t)"
    note be = ilog2_bounds [OF trpos, folded e_def]
    have "(2::rat) powi 0 \<le> of_int t" using tpos by simp
    then have e0: "0 \<le> e" unfolding e_def by (rule ilog2_ge)
    have "(2::rat) powi e \<le> of_int (2 ^ 32)" using be(1) tr(2) by simp
    then have "(2::rat) powi e \<le> 2 powi 32" by simp
    then have e32: "e \<le> 32" by (simp only: pow2_le_iff)
    have pe: "(2::rat) powi e = of_int (2 ^ nat e)" using e0 by (simp add: power_int_nonneg_exp)
    have "2 ^ nat e \<le> t" using be(1) unfolding pe by (simp only: of_int_le_iff)
    moreover have "t \<noteq> 2 ^ nat e" using d19 by (rule multiple_of_19_not_pow2)
    ultimately have "2 ^ nat e + 1 \<le> t" by simp
    then have "(of_int (2 ^ nat e + 1) :: rat) \<le> of_int t" by (simp only: of_int_le_iff)
    then have t1: "2 powi e + 1 \<le> (of_int t :: rat)" unfolding pe by simp
    have xt: "x = of_int t - of_int t / (19 * 2 ^ 50)"
      using kr True by (simp add: x_def field_simps)
    have x1: "2 powi e \<le> x" using t1 tr(1,2) unfolding xt
      by (simp add: field_simps)
    have x2: "x \<le> of_int t" using tr(1) unfolding xt by simp
    have "(of_int t - x) * 2 powi (52 - e) = 4 / 19 * (of_int t / 2 powi e)"
      unfolding xt by (simp add: power_int_diff)
    also have "of_int t / 2 powi e < (2::rat)"
      using be(2) by (simp add: power_int_add pos_divide_less_eq mult.commute)
    finally have near: "(of_int t - x) * 2 powi (52 - e) < 1 / 2" by simp
    have "rnd x = of_int t"
      using x1 x2 be(2) _ _ near by (rule rnd_near_int) (use e0 e32 in simp_all)
    moreover have "\<bar>(of_int t :: rat)\<bar> < 2 powi 1024"
    proof -
      have "\<bar>(of_int t :: rat)\<bar> \<le> 2 ^ 32" using tr by simp
      also have "\<dots> < (2::rat) powi 1024" by simp
      finally show ?thesis .
    qed
    ultimately show ?thesis using fl_Fin [of x] by simp
  qed
  have "jmul (fl (95 / 100)) (Fin (of_nat k)) = fl x"
    unfolding fl_095 by (simp add: x_def)
  then show ?thesis using res by (simp add: t_def)
qed

lemma at_index_int:
  assumes "0 \<le> i" and "nat i < length xs"
  shows "at_index xs (Fin (of_int i)) = Some (xs ! nat i)"
  using assms by (simp add: at_index_def)

lemma floor_005: "\<lfloor>5 / 100 * (of_nat c :: rat)\<rfloor> = int c div 20"
proof -
  have "5 / 100 * (of_nat c :: rat) = of_int (int c) / of_int 20" by simp
  then show ?thesis by (simp only: floor_divide_of_int_eq)
qed

lemma floor_095: "\<lfloor>95 / 100 * (of_nat c :: rat)\<rfloor> = 19 * int c div 20"
proof -
  have "95 / 100 * (of_nat c :: rat) = of_int (19 * int c) / of_int 20" by simp
  then show ?thesis by (simp only: floor_divide_of_int_eq)
qed

lemma percentile_reads:
  fixes xs :: "int list"
  assumes "0 < length xs" and "length xs < 2 ^ 32"
  shows "at_index xs (Math_floor (jmul (fl (5 / 100)) (Fin (of_nat (length xs))))) =
           Some (xs ! nat \<lfloor>5 / 100 * (of_nat (length xs) :: rat)\<rfloor>)"
    and "at_index xs (Math_floor (jmul (fl (95 / 100)) (Fin (of_nat (length xs))))) =
           Some (xs ! nat \<lfloor>95 / 100 * (of_nat (length xs) :: rat)\<rfloor>)"
proof -
  have 1: "nat (int (length xs) div 20) < length xs" using assms(1) by linarith
  have 2: "nat (19 * int (length xs) div 20) < length xs" using assms(1) by linarith
  show "at_index xs (Math_floor (jmul (fl (5 / 100)) (Fin (of_nat (length xs))))) =
           Some (xs ! nat \<lfloor>5 / 100 * (of_nat (length xs) :: rat)\<rfloor>)"
    unfolding idx05 [OF assms] floor_005 using 1 by (intro at_index_int) auto
  show "at_index xs (Math_floor (jmul (fl (95 / 100)) (Fin (of_nat (length xs))))) =
           Some (xs ! nat \<lfloor>95 / 100 * (of_nat (length xs) :: rat)\<rfloor>)"
    unfolding idx95 [OF assms] floor_095 using 2 by (intro at_index_int) auto
qed

lemma estimateTickTimeDiff_eq:
  assumes "game this = Some g" and "length (ticks g) < 2 ^ 32"
  shows "estimateTickTimeDiff this = Inr
     (let ts = ticks g;
          deltas = map (\<lambda>i. elapsed (ts ! i) - elapsed (ts ! (i - 1))) [1..<length ts];
          cnt = length deltas
      in if length ts \<le> 1 then \<lparr>lower = Some 0, upper = Some 0\<rparr>
         else if length ts = 2 then \<lparr>lower = Some (deltas ! 0), upper = Some (deltas ! 0)\<rparr>
         else if length ts = 3 then
           \<lparr>lower = Some (min (deltas ! 0) (deltas ! 1)),
            upper = Some (max (deltas ! 0) (deltas ! 1))\<rparr>
         else \<lparr>lower = Some (sort deltas ! nat \<lfloor>5 / 100 * (of_nat cnt :: rat)\<rfloor>),
               upper = Some (sort deltas ! nat \<lfloor>95 / 100 * (of_nat cnt :: rat)\<rfloor>)\<rparr>)"
proof -
  let ?ts = "ticks g"
  let ?deltas = "map (\<lambda>i. elapsed (?ts ! i) - elapsed (?ts ! (i - 1))) [1..<length ?ts]"
  consider "length ?ts \<le> 1" | "length ?ts = 2" | "length ?ts = 3" | "4 \<le> length ?ts"
    by linarith
  then show ?thesis
  proof cases
    case 1
    then show ?thesis using assms(1) by (simp add: estimateTickTimeDiff_def)
  next
    case 2
    then show ?thesis using assms(1)
      by (simp add: estimateTickTimeDiff_def Let_def upt_rec [of 1])
  next
    case 3
    then show ?thesis using assms(1)
      by (simp add: estimateTickTimeDiff_def Let_def upt_rec [of 1] upt_rec [of 2]
          numeral_2_eq_2)
  next
    case 4
    have len: "0 < length (sort ?deltas)" "length (sort ?deltas) < 2 ^ 32"
      using 4 assms(2) by simp_all
    note p = percentile_reads [OF len]
    have l: "length (sort ?deltas) = length ?deltas" by simp
    show ?thesis using assms(1) 4 p
      unfolding estimateTickTimeDiff_def Let_def l by simp
  qed
qed

lemma estimateTickTimeDiff_spec:
  assumes "game this = Some g" and "length (ticks g) < 2 ^ 32"
  shows "estimateTickTimeDiff this = Inr (spec_tickTimeDiff (ticks g))"
  using estimateTickTimeDiff_eq [OF assms] unfolding spec_tickTimeDiff_def Let_def .


lemma spec_tickTimeDiff_ex6:
  "spec_tickTimeDiff (ticks ex_game6) = \<lparr>lower = Some 240, upper = Some 260\<rparr>"
  by code_simp




lemma ex_game6_tickdiff:
  "estimateTickTimeDiff (ex_client WATCHING ex_game6) = Inr \<lparr>lower = Some 240, upper = Some 260\<rparr>"
  using estimateTickTimeDiff_spec [of "ex_client WATCHING ex_game6" ex_game6]
  by (simp add: ex_client_def spec_tickTimeDiff_ex6) (simp add: ex_game6_def)

lemma estimateTickTimeDiff_defined:
  assumes "game this = Some g" and "length (ticks g) < 2 ^ 32"
  shows "\<exists>l u. estimateTickTimeDiff this = Inr \<lparr>lower = Some l, upper = Some u\<rparr>"
  using estimateTickTimeDiff_eq [OF assms] by (simp add: Let_def)

text \<open>
  C9. The claim: \<open>estimateNextTick\<close> returns two ticks at the elapsed times of the last
  tick plus the lower and plus the upper bound, each with the growth of \<open>growthFunc\<close> at
  that time and with the value of the model's \<open>evaluate\<close> at that time as its \<open>micro\<close>.
  The elapsed times and the growths are so; \<open>micro\<close> is \<open>undefined\<close> in both ticks,
  since \<open>elapsedToMicro\<close> drops the value of \<open>evaluate\<close>.
\<close>

theorem estimateNextTick_ticks:
  assumes "game this = Some g" and "tickModel this = Some m" and "length (ticks g) < 2 ^ 32"
  shows "\<exists>lst l u r.
     getLastTick this = Inr lst \<and>
     estimateTickTimeDiff this = Inr \<lparr>lower = Some l, upper = Some u\<rparr> \<and>
     estimateNextTick this = Inr r \<and>
     est_elapsed (lower_tickInfo r) = Some (elapsed lst + l) \<and>
     est_elapsed (upper_tickInfo r) = Some (elapsed lst + u) \<and>
     est_growth (lower_tickInfo r) = Some (growthFunc (of_int (elapsed lst + l))) \<and>
     est_growth (upper_tickInfo r) = Some (growthFunc (of_int (elapsed lst + u))) \<and>
     est_micro (lower_tickInfo r) = Undefined \<and>
     est_micro (upper_tickInfo r) = Undefined"
proof -
  obtain l u where td: "estimateTickTimeDiff this = Inr \<lparr>lower = Some l, upper = Some u\<rparr>"
    using estimateTickTimeDiff_defined [OF assms(1,3)] by blast
  have "\<exists>lst. getLastTick this = Inr lst"
    using assms(1) by (simp add: getLastTick_def)
  then obtain lst where lt: "getLastTick this = Inr lst" by blast
  show ?thesis
    using td lt assms(2)
    by (simp add: estimateNextTick_def elapsedToMicro_def Let_def)
qed

theorem estimateNextTick_ticks_witness:
  "\<exists>r. estimateNextTick (ex_client WATCHING ex_game6) = Inr r \<and>
     est_elapsed (lower_tickInfo r) = Some 1495 \<and>
     est_elapsed (upper_tickInfo r) = Some 1515 \<and>
     est_growth (lower_tickInfo r) = Some (growthFunc 1495) \<and>
     est_growth (upper_tickInfo r) = Some (growthFunc 1515) \<and>
     est_micro (lower_tickInfo r) = Undefined \<and>
     est_micro (upper_tickInfo r) = Undefined \<and>
     evaluate (add new_LinearModel (Fin 0) (Fin 0)) (Fin 1495) = NaN"
proof -
  have g: "getLastTick (ex_client WATCHING ex_game6) =
      Inr \<lparr>elapsed = 1255, growth = 107, micro = Num (Fin 1256000)\<rparr>"
    by (simp add: getLastTick_def ex_client_def ex_game6_def)
  have e: "evaluate (add new_LinearModel (Fin 0) (Fin 0)) (Fin 1495) = NaN"
    by (simp add: evaluate_NaN add_poisons new_LinearModel_def)
  from estimateNextTick_ticks [of "ex_client WATCHING ex_game6" ex_game6
      "add new_LinearModel (Fin 0) (Fin 0)"]
  show ?thesis
    unfolding g ex_game6_tickdiff
    by (auto simp: ex_client_def ex_game6_def e)
qed

section \<open>Growth and duration\<close>










end
